theory Spec2Isabelle
  imports Complex_Main "HOL-Library.Char_ord" "HOL-Library.List_Lexorder" "HOL-Library.Multiset"
    "HOL-Library.Log_Nat"
begin

section \<open>The user service of main.py\<close>

text \<open>
  The module keeps one dictionary \<^verbatim>\<open>users_db\<close> from identifiers to the dumped fields
  of a \<^verbatim>\<open>User\<close> (id, name, age) and offers five handlers on it: create, list, delete,
  CSV upload and the average age per first letter. The handlers are modelled as functions
  on an explicit state; every \<^verbatim>\<open>HTTPException\<close> is a value of \<open>error\<close>.

  A Python text is modelled by the \<open>string\<close> of the bytes of its UTF-8 encoding: two
  texts are equal exactly when their byte strings are, and a text starts with an ASCII
  character exactly when its first byte is below 128.
\<close>

subsection \<open>Library behaviour taken as parameters\<close>

text \<open>
  A float as Python sees it: a finite double other than negative zero (every finite double
  is a rational; \<open>Finite 0\<close> is positive zero), negative zero, or one of the three
  special values.
\<close>

datatype pyfloat = Finite rat | NegZero | NaN | PosInf | NegInf

text \<open>
  What the module calls and this theory does not define:
  \<^item> \<open>uuid4 n\<close>: the text of the identifier returned by the \<open>n\<close>-th call of
    \<^verbatim>\<open>str(uuid.uuid4())\<close> in the process (nothing is assumed about these values, not
    even that they differ);
  \<^item> \<open>int_of_str s\<close>: Python's \<^verbatim>\<open>int(s)\<close> on a text, \<open>None\<close> when it raises
    \<^verbatim>\<open>ValueError\<close>;
  \<^item> \<open>repr_float q\<close>: Python's \<^verbatim>\<open>str(x)\<close> on a finite float \<open>x\<close> of value \<open>q\<close>
    that is not a whole number below \<open>10^16\<close> in magnitude (the shortest digits that
    read back as \<open>x\<close>);
  \<^item> \<open>numeric_of_str s\<close>: what \<^verbatim>\<open>pd.to_numeric(..., errors='coerce')\<close> makes of a
    text: a float, NaN when the text is no number;
  \<^item> \<open>upper_first s\<close>: \<^verbatim>\<open>s[0].upper()\<close> for a text \<open>s\<close> whose first character is
    not ASCII (the result can be longer than one character).
\<close>

record pylib =
  uuid4 :: "nat \<Rightarrow> string"
  int_of_str :: "string \<Rightarrow> int option"
  repr_float :: "rat \<Rightarrow> string"
  numeric_of_str :: "string \<Rightarrow> pyfloat"
  upper_first :: "string \<Rightarrow> string"

subsection \<open>Data model\<close>

text \<open>
  The age field of a stored dictionary. Every record written by the handlers holds an
  \<^verbatim>\<open>int\<close>; a dictionary put into \<^verbatim>\<open>users_db\<close> directly (as test_main.py does with
  \<^verbatim>\<open>"invalid_age"\<close>) may hold a text.
\<close>

datatype age_val = AgeInt int | AgeStr string

record user =
  user_id :: string
  name :: string
  age :: age_val

text \<open>
  \<^verbatim>\<open>users_db: Dict[str, Dict]\<close>: a Python dictionary, kept as an association list in
  insertion order. \<open>uuid_calls\<close> counts the calls of \<^verbatim>\<open>uuid.uuid4()\<close> made so far.
\<close>

type_synonym store = "(string \<times> user) list"

record state =
  users_db :: store
  uuid_calls :: nat

definition init_state :: state where
  "init_state = \<lparr>users_db = [], uuid_calls = 0\<rparr>"

text \<open>\<^verbatim>\<open>d[k] = v\<close>: an existing key keeps its place, a new key goes to the end.\<close>

fun dict_set :: "string \<Rightarrow> user \<Rightarrow> store \<Rightarrow> store" where
  "dict_set k v [] = [(k, v)]"
| "dict_set k v ((k', v') # d) =
     (if k' = k then (k, v) # d else (k', v') # dict_set k v d)"

text \<open>\<^verbatim>\<open>del d[k]\<close> on a dictionary.\<close>

fun dict_del :: "string \<Rightarrow> store \<Rightarrow> store" where
  "dict_del k [] = []"
| "dict_del k ((k', v') # d) = (if k' = k then d else (k', v') # dict_del k d)"

text \<open>\<^verbatim>\<open>k in d\<close> and \<^verbatim>\<open>d.values()\<close>.\<close>

definition dict_has :: "string \<Rightarrow> store \<Rightarrow> bool" where
  "dict_has k d = (k \<in> set (map fst d))"

definition dict_values :: "store \<Rightarrow> user list" where
  "dict_values d = map snd d"

text \<open>
  The errors of the handlers, under the names of the specification:
  \<^item> \<open>DuplicateName\<close>: status 400, "User with name ... already exists";
  \<^item> \<open>NotFound\<close>: status 404, "User not found";
  \<^item> \<open>InvalidFileType\<close>: status 400, "Invalid file type. Please upload a CSV file.";
  \<^item> \<open>InputMalformed\<close>: status 400, "Error processing CSV file: ...";
  \<^item> \<open>SchemaMismatch\<close>: status 400, "CSV must contain 'Name' and 'Age' columns."

  \<open>Unhandled\<close> is not an error of the specification: it stands for an exception that
  leaves a handler uncaught (status 500). The only one modelled is the \<^verbatim>\<open>OverflowError\<close>
  of converting an integer beyond the range of a float.
\<close>

datatype error =
  DuplicateName | NotFound | InvalidFileType | InputMalformed | SchemaMismatch | Unhandled

subsection \<open>create_user, get_users, delete_user\<close>

text \<open>\<^verbatim>\<open>any(u['name'] == n for u in users_db.values())\<close>\<close>

definition name_taken :: "string \<Rightarrow> store \<Rightarrow> bool" where
  "name_taken n d = list_ex (\<lambda>u. name u = n) (dict_values d)"

text \<open>
  \<^verbatim>\<open>User(**user_in.model_dump())\<close> draws the identifier before the name is looked up, so
  a rejected request still uses up one call of \<^verbatim>\<open>uuid4\<close>.
\<close>

definition create_user :: "pylib \<Rightarrow> string \<Rightarrow> int \<Rightarrow> state \<Rightarrow> (error + user) \<times> state" where
  "create_user L n a st =
     (let new_user = \<lparr>user_id = uuid4 L (uuid_calls st), name = n, age = AgeInt a\<rparr>;
          st1 = st\<lparr>uuid_calls := Suc (uuid_calls st)\<rparr>
      in if name_taken (name new_user) (users_db st1) then (Inl DuplicateName, st1)
         else (Inr new_user,
               st1\<lparr>users_db := dict_set (user_id new_user) new_user (users_db st1)\<rparr>))"

definition get_users :: "state \<Rightarrow> user list" where
  "get_users st = dict_values (users_db st)"

definition delete_user :: "string \<Rightarrow> state \<Rightarrow> (error + unit) \<times> state" where
  "delete_user uid st =
     (if \<not> dict_has uid (users_db st) then (Inl NotFound, st)
      else (Inr (), st\<lparr>users_db := dict_del uid (users_db st)\<rparr>))"

subsection \<open>upload_users_csv\<close>

text \<open>
  A cell of a row as \<^verbatim>\<open>df.iterrows()\<close> hands it over: a text, or a number, a truth
  value or a float (NaN for an empty cell) of the column's type.
\<close>

datatype cell = CStr string | CInt int | CBool bool | CFloat pyfloat

text \<open>
  The frame returned by \<^verbatim>\<open>pd.read_csv\<close>: the header and the data rows in input
  order, each row listing its cells in header order.
\<close>

record dataframe =
  columns :: "string list"
  rows :: "cell list list"

text \<open>\<^verbatim>\<open>row[k]\<close>; \<open>None\<close> stands for \<^verbatim>\<open>KeyError\<close>.\<close>

definition row_item :: "string list \<Rightarrow> cell list \<Rightarrow> string \<Rightarrow> cell option" where
  "row_item cols r k = map_of (zip cols r) k"

text \<open>Decimal digits of a number, for \<^verbatim>\<open>str\<close> of an integer.\<close>

fun str_of_nat :: "nat \<Rightarrow> string" where
  "str_of_nat n =
     (if n < 10 then [char_of (48 + n)]
      else str_of_nat (n div 10) @ [char_of (48 + n mod 10)])"

declare str_of_nat.simps [simp del]

definition str_of_int :: "int \<Rightarrow> string" where
  "str_of_int i = (if i < 0 then CHR ''-'' # str_of_nat (nat (- i)) else str_of_nat (nat i))"

text \<open>
  \<^verbatim>\<open>str(x)\<close> on a float: a whole number below \<open>10^16\<close> in magnitude is printed with
  \<open>.0\<close> after its digits.
\<close>

fun str_of_float :: "pylib \<Rightarrow> pyfloat \<Rightarrow> string" where
  "str_of_float L (Finite q) =
     (if of_int \<lfloor>q\<rfloor> = q \<and> \<bar>q\<bar> < 10 ^ 16 then str_of_int \<lfloor>q\<rfloor> @ ''.0''
      else repr_float L q)"
| "str_of_float L NegZero = ''-0.0''"
| "str_of_float L NaN = ''nan''"
| "str_of_float L PosInf = ''inf''"
| "str_of_float L NegInf = ''-inf''"

text \<open>\<^verbatim>\<open>str(c)\<close> on a cell.\<close>

fun py_str :: "pylib \<Rightarrow> cell \<Rightarrow> string" where
  "py_str L (CStr s) = s"
| "py_str L (CInt i) = str_of_int i"
| "py_str L (CBool b) = (if b then ''True'' else ''False'')"
| "py_str L (CFloat x) = str_of_float L x"

text \<open>
  \<^verbatim>\<open>int(c)\<close> on a cell; \<open>None\<close> stands for the exception (\<^verbatim>\<open>ValueError\<close> on a text
  that is no integer and on NaN, \<^verbatim>\<open>OverflowError\<close> on an infinity). A finite float is
  truncated towards zero.
\<close>

fun py_int :: "pylib \<Rightarrow> cell \<Rightarrow> int option" where
  "py_int L (CStr s) = int_of_str L s"
| "py_int L (CInt i) = Some i"
| "py_int L (CBool b) = Some (if b then 1 else 0)"
| "py_int L (CFloat (Finite q)) = Some (if 0 \<le> q then \<lfloor>q\<rfloor> else \<lceil>q\<rceil>)"
| "py_int L (CFloat NegZero) = Some 0"
| "py_int L (CFloat NaN) = None"
| "py_int L (CFloat PosInf) = None"
| "py_int L (CFloat NegInf) = None"

text \<open>
  \<^verbatim>\<open>UserCreate(name=row['Name'], age=int(row['Age']))\<close>: the two cells are read, the age
  is converted, and the model validates that the name is a text. \<open>None\<close> stands for any
  exception on the way; all of them end in the same \<^verbatim>\<open>except Exception\<close>.
\<close>

definition user_create :: "pylib \<Rightarrow> string list \<Rightarrow> cell list \<Rightarrow> (string \<times> int) option" where
  "user_create L cols r =
     (case row_item cols r ''Name'' of
        None \<Rightarrow> None
      | Some nc \<Rightarrow>
          (case row_item cols r ''Age'' of
             None \<Rightarrow> None
           | Some ac \<Rightarrow>
               (case py_int L ac of
                  None \<Rightarrow> None
                | Some a \<Rightarrow> (case nc of CStr s \<Rightarrow> Some (s, a) | _ \<Rightarrow> None))))"

text \<open>\<^verbatim>\<open>str(row.get('Name', 'N/A'))\<close>\<close>

definition name_or_na :: "pylib \<Rightarrow> string list \<Rightarrow> cell list \<Rightarrow> string" where
  "name_or_na L cols r =
     (case row_item cols r ''Name'' of None \<Rightarrow> ''N/A'' | Some c \<Rightarrow> py_str L c)"

text \<open>
  The returned dictionary, without its constant \<^verbatim>\<open>"message"\<close> entry.
\<close>

record report =
  added_users :: int
  skipped_users :: int
  skipped_names :: "string list"

definition empty_report :: report where
  "empty_report = \<lparr>added_users = 0, skipped_users = 0, skipped_names = []\<rparr>"

text \<open>The body of the \<^verbatim>\<open>for\<close> loop, on the store and the three accumulators.\<close>

definition process_row ::
  "pylib \<Rightarrow> string list \<Rightarrow> cell list \<Rightarrow> state \<times> report \<Rightarrow> state \<times> report" where
  "process_row L cols r sr =
     (let st = fst sr; rep = snd sr in
      case user_create L cols r of
        Some (n, a) \<Rightarrow>
          if name_taken n (users_db st)
          then (st, rep\<lparr>skipped_users := skipped_users rep + 1,
                        skipped_names := skipped_names rep @ [n]\<rparr>)
          else
            (let new_user = \<lparr>user_id = uuid4 L (uuid_calls st), name = n, age = AgeInt a\<rparr>
             in (st\<lparr>users_db := dict_set (user_id new_user) new_user (users_db st),
                     uuid_calls := Suc (uuid_calls st)\<rparr>,
                 rep\<lparr>added_users := added_users rep + 1\<rparr>))
      | None \<Rightarrow>
          (st, rep\<lparr>skipped_users := skipped_users rep + 1,
                    skipped_names := skipped_names rep @ [name_or_na L cols r]\<rparr>))"

fun process_rows ::
  "pylib \<Rightarrow> string list \<Rightarrow> cell list list \<Rightarrow> state \<times> report \<Rightarrow> state \<times> report" where
  "process_rows L cols [] sr = sr"
| "process_rows L cols (r # rs) sr = process_rows L cols rs (process_row L cols r sr)"

text \<open>
  The handler. Its input is the declared content type and the outcome of reading the
  upload with \<^verbatim>\<open>pd.read_csv\<close>: \<open>None\<close> when decoding or parsing raised.
\<close>

definition upload_users_csv ::
  "pylib \<Rightarrow> string \<Rightarrow> dataframe option \<Rightarrow> state \<Rightarrow> (error + report) \<times> state" where
  "upload_users_csv L content_type parsed st =
     (if content_type \<noteq> ''text/csv'' then (Inl InvalidFileType, st)
      else case parsed of
        None \<Rightarrow> (Inl InputMalformed, st)
      | Some df \<Rightarrow>
          if \<not> {''Name'', ''Age''} \<subseteq> set (columns df) then (Inl SchemaMismatch, st)
          else (let sr = process_rows L (columns df) (rows df) (st, empty_report)
                in (Inr (snd sr), fst sr)))"

subsection \<open>get_average_age_by_group\<close>

text \<open>\<^verbatim>\<open>str.upper\<close> on one ASCII character.\<close>

definition upper_char :: "char \<Rightarrow> char" where
  "upper_char c =
     (if 97 \<le> (of_char c :: nat) \<and> (of_char c :: nat) \<le> 122
      then char_of ((of_char c :: nat) - 32) else c)"

text \<open>
  \<^verbatim>\<open>df['name'].str[0].str.upper()\<close>: the empty name has no first character and gets
  NaN as its group, here \<open>None\<close>; an ASCII first character is upper-cased here, any other
  by the library.
\<close>

definition group_of :: "pylib \<Rightarrow> string \<Rightarrow> string option" where
  "group_of L n =
     (case n of
        [] \<Rightarrow> None
      | c # cs \<Rightarrow> Some (if (of_char c :: nat) < 128 then [upper_char c] else upper_first L n))"

subsubsection \<open>Float64 arithmetic\<close>

text \<open>
  \<open>rint\<close>: the nearest integer, a tie going to the even neighbour.
\<close>

definition rint :: "rat \<Rightarrow> int" where
  "rint q =
     (let f = \<lfloor>q\<rfloor>; d = q - of_int f in
      if d < 1 / 2 then f
      else if 1 / 2 < d then f + 1
      else if even f then f else f + 1)"

text \<open>
  \<open>pow2 e\<close> is \<open>2\<close> to the power \<open>e\<close>, and \<open>expo q\<close> is the binary exponent of a
  positive \<open>q\<close>: the \<open>e\<close> with \<open>pow2 e \<le> q < pow2 (e + 1)\<close>.
\<close>

definition pow2 :: "int \<Rightarrow> rat" where
  "pow2 e = 2 powi e"

definition expo :: "rat \<Rightarrow> int" where
  "expo q =
     (let d = bitlen (fst (quotient_of q)) - bitlen (snd (quotient_of q))
      in if pow2 d \<le> q then d else d - 1)"

text \<open>
  The double nearest to a rational, a tie going to the even significand (the rounding of
  every float64 operation and of \<^verbatim>\<open>float(i)\<close>): 53 significant bits, exponents from
  \<open>-1022\<close>, a spacing of \<open>2^-1074\<close> below that, an infinity from \<open>2^1024\<close> on. A value
  that rounds to zero keeps its sign.
\<close>

definition f64_round :: "rat \<Rightarrow> pyfloat" where
  "f64_round q =
     (if q = 0 then Finite 0
      else
        let a = \<bar>q\<bar>;
            e = max (expo a) (- 1022);
            u = pow2 (e - 52);
            r = of_int (rint (a / u)) * u
        in if pow2 1024 \<le> r then (if 0 < q then PosInf else NegInf)
           else if r = 0 then (if 0 < q then Finite 0 else NegZero)
           else Finite (if 0 < q then r else - r))"

text \<open>The value, finiteness and sign bit of a float.\<close>

fun fval :: "pyfloat \<Rightarrow> rat" where
  "fval (Finite q) = q"
| "fval NegZero = 0"
| "fval NaN = 0"
| "fval PosInf = 0"
| "fval NegInf = 0"

fun is_fin :: "pyfloat \<Rightarrow> bool" where
  "is_fin (Finite q) = True"
| "is_fin NegZero = True"
| "is_fin NaN = False"
| "is_fin PosInf = False"
| "is_fin NegInf = False"

fun sign_neg :: "pyfloat \<Rightarrow> bool" where
  "sign_neg (Finite q) = (q < 0)"
| "sign_neg NegZero = True"
| "sign_neg NaN = False"
| "sign_neg PosInf = False"
| "sign_neg NegInf = True"

text \<open>
  Negation, addition, subtraction, multiplication and division of float64 (IEEE 754,
  round to nearest): the exact result is rounded; an exact zero sum is positive unless
  both terms are negative zeros; the sign of a zero or infinite product or quotient is
  the exclusive or of the signs.
\<close>

fun f64_neg :: "pyfloat \<Rightarrow> pyfloat" where
  "f64_neg (Finite q) = (if q = 0 then NegZero else Finite (- q))"
| "f64_neg NegZero = Finite 0"
| "f64_neg NaN = NaN"
| "f64_neg PosInf = NegInf"
| "f64_neg NegInf = PosInf"

definition f64_add :: "pyfloat \<Rightarrow> pyfloat \<Rightarrow> pyfloat" where
  "f64_add x y =
     (if x = NaN \<or> y = NaN then NaN
      else if x = PosInf then (if y = NegInf then NaN else PosInf)
      else if x = NegInf then (if y = PosInf then NaN else NegInf)
      else if y = PosInf then PosInf
      else if y = NegInf then NegInf
      else
        let s = fval x + fval y
        in if s = 0 then (if x = NegZero \<and> y = NegZero then NegZero else Finite 0)
           else f64_round s)"

definition f64_sub :: "pyfloat \<Rightarrow> pyfloat \<Rightarrow> pyfloat" where
  "f64_sub x y = f64_add x (f64_neg y)"

definition signed_inf :: "bool \<Rightarrow> pyfloat" where
  "signed_inf neg = (if neg then NegInf else PosInf)"

definition signed_zero :: "bool \<Rightarrow> pyfloat" where
  "signed_zero neg = (if neg then NegZero else Finite 0)"

definition f64_mul :: "pyfloat \<Rightarrow> pyfloat \<Rightarrow> pyfloat" where
  "f64_mul x y =
     (if x = NaN \<or> y = NaN then NaN
      else if \<not> is_fin x \<or> \<not> is_fin y then
        (if (is_fin x \<and> fval x = 0) \<or> (is_fin y \<and> fval y = 0) then NaN
         else signed_inf (sign_neg x \<noteq> sign_neg y))
      else if fval x * fval y = 0 then signed_zero (sign_neg x \<noteq> sign_neg y)
      else f64_round (fval x * fval y))"

definition f64_div :: "pyfloat \<Rightarrow> pyfloat \<Rightarrow> pyfloat" where
  "f64_div x y =
     (if x = NaN \<or> y = NaN then NaN
      else if \<not> is_fin x then
        (if \<not> is_fin y then NaN else signed_inf (sign_neg x \<noteq> sign_neg y))
      else if \<not> is_fin y then signed_zero (sign_neg x \<noteq> sign_neg y)
      else if fval y = 0 then
        (if fval x = 0 then NaN else signed_inf (sign_neg x \<noteq> sign_neg y))
      else if fval x = 0 then signed_zero (sign_neg x \<noteq> sign_neg y)
      else f64_round (fval x / fval y))"

text \<open>\<^verbatim>\<open>numpy.rint\<close>: to the nearest whole number, ties to even, the sign kept.\<close>

fun f64_rint :: "pyfloat \<Rightarrow> pyfloat" where
  "f64_rint (Finite q) =
     (if rint q = 0 then signed_zero (q < 0) else Finite (of_int (rint q)))"
| "f64_rint NegZero = NegZero"
| "f64_rint NaN = NaN"
| "f64_rint PosInf = PosInf"
| "f64_rint NegInf = NegInf"

text \<open>
  \<^verbatim>\<open>Series.round(2)\<close> on float64 values is numpy's round: multiply by \<open>100.0\<close>,
  \<open>rint\<close>, divide by \<open>100.0\<close>.
\<close>

definition np_round2 :: "pyfloat \<Rightarrow> pyfloat" where
  "np_round2 x = f64_div (f64_rint (f64_mul x (Finite 100))) (Finite 100)"

text \<open>
  The mean of a group as pandas computes it (\<^verbatim>\<open>group_mean\<close>): the values are added with
  Kahan's compensated summation, a compensation that came out NaN being reset to zero, and
  the sum is divided by the number of values (a count below \<open>2^53\<close>, exact as a float).
\<close>

fun kahan_sum :: "pyfloat list \<Rightarrow> pyfloat \<Rightarrow> pyfloat \<Rightarrow> pyfloat" where
  "kahan_sum [] sumx cmp = sumx"
| "kahan_sum (v # vs) sumx cmp =
     (let y = f64_sub v cmp;
          t = f64_add sumx y;
          c = f64_sub (f64_sub t sumx) y
      in kahan_sum vs t (if c = NaN then Finite 0 else c))"

definition group_mean :: "pyfloat list \<Rightarrow> pyfloat" where
  "group_mean vs = f64_div (kahan_sum vs (Finite 0) (Finite 0)) (Finite (of_nat (length vs)))"

subsubsection \<open>The handler\<close>

text \<open>
  The age column as float64. \<^verbatim>\<open>float(i)\<close> of an integer is the nearest double, and
  raises \<^verbatim>\<open>OverflowError\<close> when that is beyond the largest one; the handler does not
  catch it, and \<^verbatim>\<open>errors='coerce'\<close> covers only what is no number. A text becomes
  what \<^verbatim>\<open>pd.to_numeric\<close> makes of it.
\<close>

definition int_overflows :: "int \<Rightarrow> bool" where
  "int_overflows i = (f64_round (of_int i) = PosInf \<or> f64_round (of_int i) = NegInf)"

fun to_numeric :: "pylib \<Rightarrow> age_val \<Rightarrow> error + pyfloat" where
  "to_numeric L (AgeInt i) =
     (if int_overflows i then Inl Unhandled else Inr (f64_round (of_int i)))"
| "to_numeric L (AgeStr s) = Inr (numeric_of_str L s)"

fun to_numeric_col :: "pylib \<Rightarrow> age_val list \<Rightarrow> error + pyfloat list" where
  "to_numeric_col L [] = Inr []"
| "to_numeric_col L (a # as) =
     (case to_numeric L a of
        Inl e \<Rightarrow> Inl e
      | Inr x \<Rightarrow>
          (case to_numeric_col L as of Inl e \<Rightarrow> Inl e | Inr xs \<Rightarrow> Inr (x # xs)))"

text \<open>
  The frame built from the stored dictionaries, reduced to the two columns the handler
  goes on to use: the group and the numeric age.
\<close>

definition frame_of :: "pylib \<Rightarrow> user list \<Rightarrow> error + (string option \<times> pyfloat) list" where
  "frame_of L us =
     (case to_numeric_col L (map age us) of
        Inl e \<Rightarrow> Inl e
      | Inr xs \<Rightarrow> Inr (zip (map (\<lambda>u. group_of L (name u)) us) xs))"

text \<open>\<^verbatim>\<open>dropna(subset=['age'])\<close>\<close>

definition dropna_age :: "(string option \<times> pyfloat) list \<Rightarrow> (string option \<times> pyfloat) list" where
  "dropna_age fr = filter (\<lambda>ga. snd ga \<noteq> NaN) fr"

text \<open>
  \<^verbatim>\<open>groupby('group')['age']\<close>: the keys in ascending order, rows without a group left
  out, each key with the ages of its rows in the order of the frame.
\<close>

definition group_keys :: "(string option \<times> pyfloat) list \<Rightarrow> string list" where
  "group_keys fr = sort (remdups (List.map_filter fst fr))"

definition group_ages :: "(string option \<times> pyfloat) list \<Rightarrow> string \<Rightarrow> pyfloat list" where
  "group_ages fr k = map snd (filter (\<lambda>ga. fst ga = Some k) fr)"

text \<open>\<^verbatim>\<open>.mean().round(2).to_dict()\<close>\<close>

definition average_ages :: "(string option \<times> pyfloat) list \<Rightarrow> (string \<times> pyfloat) list" where
  "average_ages fr =
     (let kept = dropna_age fr
      in map (\<lambda>k. (k, np_round2 (group_mean (group_ages kept k)))) (group_keys kept))"

datatype avg_result = NoUsers | Averages "(string \<times> pyfloat) list"

text \<open>The handler after its test for the empty store.\<close>

definition aggregate :: "pylib \<Rightarrow> user list \<Rightarrow> error + avg_result" where
  "aggregate L us =
     (case frame_of L us of Inl e \<Rightarrow> Inl e | Inr fr \<Rightarrow> Inr (Averages (average_ages fr)))"

definition get_average_age_by_group :: "pylib \<Rightarrow> state \<Rightarrow> error + avg_result" where
  "get_average_age_by_group L st =
     (if users_db st = [] then Inr NoUsers else aggregate L (dict_values (users_db st)))"

subsection \<open>Sequences of requests\<close>

datatype request = Create string int | Delete string | UploadCsv string "dataframe option"

fun handle :: "pylib \<Rightarrow> request \<Rightarrow> state \<Rightarrow> state" where
  "handle L (Create n a) st = snd (create_user L n a st)"
| "handle L (Delete uid) st = snd (delete_user uid st)"
| "handle L (UploadCsv ct parsed) st = snd (upload_users_csv L ct parsed st)"

fun run :: "pylib \<Rightarrow> request list \<Rightarrow> state \<Rightarrow> state" where
  "run L [] st = st"
| "run L (q # qs) st = run L qs (handle L q st)"

subsection \<open>The invariant of the store\<close>

text \<open>No two stored records have the same name (names compared as they are).\<close>

definition names_unique :: "store \<Rightarrow> bool" where
  "names_unique d = distinct (map name (dict_values d))"

subsection \<open>The import as the specification words it\<close>



subsection \<open>Notions used by the properties of the aggregation\<close>

text \<open>
  A stored age that counts as numeric: an integer, or a text that \<^verbatim>\<open>pd.to_numeric\<close>
  does not coerce to NaN.
\<close>

definition numeric_age :: "pylib \<Rightarrow> user \<Rightarrow> bool" where
  "numeric_age L u = (case age u of AgeInt i \<Rightarrow> True | AgeStr s \<Rightarrow> numeric_of_str L s \<noteq> NaN)"

text \<open>The float64 age of a record whose conversion does not raise.\<close>

definition float_age :: "pylib \<Rightarrow> user \<Rightarrow> pyfloat" where
  "float_age L u =
     (case age u of AgeInt i \<Rightarrow> f64_round (of_int i) | AgeStr s \<Rightarrow> numeric_of_str L s)"

text \<open>The float64 ages of the numeric records of group \<open>k\<close>, in store order.\<close>

definition included_ages :: "pylib \<Rightarrow> user list \<Rightarrow> string \<Rightarrow> pyfloat list" where
  "included_ages L us k =
     map (float_age L) (filter (\<lambda>u. numeric_age L u \<and> group_of L (name u) = Some k) us)"

text \<open>
  The two fields of a record the aggregation reads; the integer of an integer age; the
  integer ages of the records of group \<open>k\<close>.
\<close>

definition name_age :: "user \<Rightarrow> string \<times> age_val" where
  "name_age u = (name u, age u)"

definition int_age :: "string \<times> age_val \<Rightarrow> int" where
  "int_age p = (case snd p of AgeInt i \<Rightarrow> i | AgeStr s \<Rightarrow> 0)"

definition is_int_age :: "string \<times> age_val \<Rightarrow> bool" where
  "is_int_age p = (case snd p of AgeInt i \<Rightarrow> True | AgeStr s \<Rightarrow> False)"

definition included_ints :: "pylib \<Rightarrow> (string \<times> age_val) list \<Rightarrow> string \<Rightarrow> int list" where
  "included_ints L ps k = map int_age (filter (\<lambda>p. group_of L (fst p) = Some k) ps)"

text \<open>
  The stores on which float64 sums are exact: every age is an integer, and the absolute
  values of all ages add up to less than \<open>2^53\<close>.
\<close>

definition small_int_ages :: "(string \<times> age_val) list \<Rightarrow> bool" where
  "small_int_ages ps =
     (list_all is_int_age ps \<and> sum_list (map (\<lambda>p. \<bar>int_age p\<bar>) ps) < 2 ^ 53)"

text \<open>A record whose age makes the conversion to float64 raise.\<close>

definition overflows :: "pylib \<Rightarrow> user \<Rightarrow> bool" where
  "overflows L u = (to_numeric L (age u) = Inl Unhandled)"

text \<open>The group keys of the numeric records, as \<^verbatim>\<open>groupby\<close> orders them.\<close>

definition store_keys :: "pylib \<Rightarrow> user list \<Rightarrow> string list" where
  "store_keys L us =
     sort (remdups (List.map_filter (\<lambda>u. group_of L (name u)) (filter (numeric_age L) us)))"

text \<open>
  The averages of a store of integer ages, each from the exact sum and the count of its
  group: the quotient rounded to float64 and then rounded to two decimals by numpy.
\<close>

definition int_averages :: "pylib \<Rightarrow> (string \<times> age_val) list \<Rightarrow> (string \<times> pyfloat) list" where
  "int_averages L ps =
     map (\<lambda>k. (k, np_round2 (f64_div (Finite (of_int (sum_list (included_ints L ps k))))
                                      (Finite (of_nat (length (included_ints L ps k)))))))
       (sort (remdups (List.map_filter (\<lambda>p. group_of L (fst p)) ps)))"

text \<open>
  The mean rounded to two decimal digits as the specification words it, with a tie going
  up or going to the even neighbour.
\<close>

definition spec_round2_half_up :: "rat \<Rightarrow> rat" where
  "spec_round2_half_up q = of_int \<lfloor>q * 100 + 1 / 2\<rfloor> / 100"

definition spec_round2_half_even :: "rat \<Rightarrow> rat" where
  "spec_round2_half_even q = of_int (rint (q * 100)) / 100"

subsection \<open>A library instance for concrete runs\<close>

text \<open>
  Identifiers \<open>u0\<close>, \<open>u1\<close>, ...; \<^verbatim>\<open>int\<close> of a text made of decimal digits only; no
  digits for the floats left to the library; no text counted as numeric; a first character
  outside ASCII left as it is.
\<close>

definition is_digit :: "char \<Rightarrow> bool" where
  "is_digit c = (48 \<le> (of_char c :: nat) \<and> (of_char c :: nat) \<le> 57)"

definition digits_to_int :: "string \<Rightarrow> int option" where
  "digits_to_int s =
     (if s \<noteq> [] \<and> list_all is_digit s
      then Some (foldl (\<lambda>acc c. 10 * acc + (int (of_char c) - 48)) 0 s)
      else None)"

definition demo_lib :: pylib where
  "demo_lib = \<lparr>uuid4 = (\<lambda>n. CHR ''u'' # str_of_nat n),
               int_of_str = digits_to_int,
               repr_float = (\<lambda>q. []),
               numeric_of_str = (\<lambda>s. NaN),
               upper_first = (\<lambda>s. take 1 s)\<rparr>"

text \<open>The store after creating Heidi, and the upload of test_main.py on top of it.\<close>

definition heidi_state :: state where
  "heidi_state = \<lparr>users_db = [(''u0'', \<lparr>user_id = ''u0'', name = ''Heidi'', age = AgeInt 60\<rparr>)],
                   uuid_calls = 1\<rparr>"

definition mixed_frame :: dataframe where
  "mixed_frame = \<lparr>columns = [''Name'', ''Age''],
                   rows = [[CStr ''Heidi'', CFloat (Finite 61)],
                           [CStr ''Ivy'', CFloat (Finite 65)],
                           [CStr ''Judy'', CFloat NaN]]\<rparr>"

text \<open>The four records of the example, and a store holding them in another order.\<close>

definition example_users :: "user list" where
  "example_users =
     [\<lparr>user_id = ''u0'', name = ''Liam'', age = AgeInt 22\<rparr>,
      \<lparr>user_id = ''u1'', name = ''Linda'', age = AgeInt 28\<rparr>,
      \<lparr>user_id = ''u2'', name = ''Mason'', age = AgeInt 35\<rparr>,
      \<lparr>user_id = ''u3'', name = ''Mia'', age = AgeInt 30\<rparr>]"

definition example_state :: state where
  "example_state =
     \<lparr>users_db =
        [(''u3'', \<lparr>user_id = ''u3'', name = ''Mia'', age = AgeInt 30\<rparr>),
         (''u0'', \<lparr>user_id = ''u0'', name = ''Liam'', age = AgeInt 22\<rparr>),
         (''u2'', \<lparr>user_id = ''u2'', name = ''Mason'', age = AgeInt 35\<rparr>),
         (''u1'', \<lparr>user_id = ''u1'', name = ''Linda'', age = AgeInt 28\<rparr>)],
      uuid_calls = 4\<rparr>"






text \<open>
  The store after forty create requests, names \<open>a0\<close> to \<open>a39\<close>, the first
  twenty-three with the age 1 and the others with the age 0.
\<close>

definition ones_zeros_users :: "user list" where
  "ones_zeros_users =
     map (\<lambda>i. \<lparr>user_id = CHR ''u'' # str_of_nat i, name = CHR ''a'' # str_of_nat i,
               age = AgeInt (if i < 23 then 1 else 0)\<rparr>) [0..<40]"

definition ones_zeros_state :: state where
  "ones_zeros_state =
     \<lparr>users_db = map (\<lambda>u. (user_id u, u)) ones_zeros_users, uuid_calls = 40\<rparr>"

section \<open>Properties\<close>

subsection \<open>Names stay unique\<close>

lemma name_taken_iff: "name_taken n d \<longleftrightarrow> n \<in> set (map name (dict_values d))"
  by (auto simp: name_taken_def list_ex_iff)

lemma set_dict_set: "set (dict_set k v d) \<subseteq> insert (k, v) (set d)"
  by (induction d) (auto split: if_splits)

lemma names_dict_set:
  "set (map name (dict_values (dict_set k v d))) \<subseteq> insert (name v) (set (map name (dict_values d)))"
  using set_dict_set [of k v d] by (auto simp: dict_values_def)

lemma names_unique_dict_set:
  "names_unique d \<Longrightarrow> \<not> name_taken (name v) d \<Longrightarrow> names_unique (dict_set k v d)"
proof (induction d)
  case Nil
  then show ?case by (simp add: names_unique_def dict_values_def)
next
  case (Cons p d)
  obtain k' v' where p: "p = (k', v')" by (cases p)
  from Cons.prems have u: "names_unique d" and fresh: "\<not> name_taken (name v) d"
    and ne: "name v' \<noteq> name v" and nin: "name v' \<notin> set (map name (dict_values d))"
    by (auto simp: p names_unique_def dict_values_def name_taken_iff)
  show ?case
  proof (cases "k' = k")
    case True
    with u fresh show ?thesis
      by (simp add: p names_unique_def dict_values_def name_taken_iff)
  next
    case False
    have "name v' \<notin> set (map name (dict_values (dict_set k v d)))"
      using names_dict_set [of k v d] ne nin by auto
    with Cons.IH [OF u fresh] False show ?thesis
      by (simp add: p names_unique_def dict_values_def)
  qed
qed

lemma set_dict_del: "set (dict_del k d) \<subseteq> set d"
  by (induction d) (auto split: if_splits)

lemma names_dict_del:
  "set (map name (dict_values (dict_del k d))) \<subseteq> set (map name (dict_values d))"
  using set_dict_del [of k d] by (auto simp: dict_values_def)

lemma names_unique_dict_del: "names_unique d \<Longrightarrow> names_unique (dict_del k d)"
proof (induction d)
  case Nil
  then show ?case by simp
next
  case (Cons p d)
  obtain k' v' where p: "p = (k', v')" by (cases p)
  from Cons.prems have u: "names_unique d" and nin: "name v' \<notin> set (map name (dict_values d))"
    by (auto simp: p names_unique_def dict_values_def)
  have "name v' \<notin> set (map name (dict_values (dict_del k d)))"
    using names_dict_del [of k d] nin by auto
  with Cons.IH [OF u] u show ?case
    by (simp add: p names_unique_def dict_values_def)
qed

lemma names_unique_create:
  "names_unique (users_db st) \<Longrightarrow> names_unique (users_db (snd (create_user L n a st)))"
  by (simp add: create_user_def Let_def names_unique_dict_set)

lemma names_unique_delete:
  "names_unique (users_db st) \<Longrightarrow> names_unique (users_db (snd (delete_user uid st)))"
  by (simp add: delete_user_def names_unique_dict_del)

lemma names_unique_process_row:
  "names_unique (users_db (fst sr)) \<Longrightarrow> names_unique (users_db (fst (process_row L cols r sr)))"
  by (auto simp: process_row_def Let_def names_unique_dict_set split: option.splits)

lemma names_unique_process_rows:
  "names_unique (users_db (fst sr)) \<Longrightarrow> names_unique (users_db (fst (process_rows L cols rs sr)))"
  by (induction rs arbitrary: sr) (simp_all add: names_unique_process_row)

lemma names_unique_upload:
  "names_unique (users_db st) \<Longrightarrow> names_unique (users_db (snd (upload_users_csv L ct parsed st)))"
  by (auto simp: upload_users_csv_def Let_def names_unique_process_rows split: option.splits)

lemma names_unique_handle:
  "names_unique (users_db st) \<Longrightarrow> names_unique (users_db (handle L q st))"
  by (cases q) (simp_all add: names_unique_create names_unique_delete names_unique_upload)

lemma names_unique_run:
  "names_unique (users_db st) \<Longrightarrow> names_unique (users_db (run L qs st))"
  by (induction qs arbitrary: st) (simp_all add: names_unique_handle)

text \<open>
  C1. Starting from the empty store, after any sequence of create, delete and CSV upload
  requests (accepted or rejected), no two stored records have the same name.
\<close>

theorem run_names_unique: "names_unique (users_db (run L qs init_state))"
  by (rule names_unique_run) (simp add: init_state_def names_unique_def dict_values_def)

subsection \<open>Creating a user\<close>

text \<open>
  C2. Whatever the store and the requested age, a create request whose name equals the
  name of a stored record fails with \<open>DuplicateName\<close> and leaves \<^verbatim>\<open>users_db\<close> as it was.
\<close>

theorem create_user_duplicate:
  assumes "u \<in> set (dict_values (users_db st))" and "name u = n"
  shows "fst (create_user L n a st) = Inl DuplicateName
       \<and> users_db (snd (create_user L n a st)) = users_db st"
proof -
  from assms have "name_taken n (users_db st)"
    unfolding name_taken_def list_ex_iff by blast
  then show ?thesis
    by (simp add: create_user_def Let_def)
qed

theorem create_user_duplicate_witness:
  "fst (create_user demo_lib ''Bob'' 26 (snd (create_user demo_lib ''Bob'' 25 init_state)))
     = Inl DuplicateName
   \<and> users_db (snd (create_user demo_lib ''Bob'' 26 (snd (create_user demo_lib ''Bob'' 25 init_state))))
     = users_db (snd (create_user demo_lib ''Bob'' 25 init_state))"
proof -
  let ?st = "snd (create_user demo_lib ''Bob'' 25 init_state)"
  let ?u = "\<lparr>user_id = ''u0'', name = ''Bob'', age = AgeInt 25\<rparr>"
  have db: "users_db ?st = [(''u0'', ?u)]"
    by code_simp
  have "?u \<in> set (dict_values (users_db ?st))"
    unfolding db by (simp add: dict_values_def)
  moreover have "name ?u = ''Bob''" by simp
  ultimately show ?thesis
    by (rule create_user_duplicate)
qed

subsection \<open>The header check of the upload\<close>

text \<open>
  C3. When the header of an uploaded CSV lacks the column \<open>Name\<close> or the column
  \<open>Age\<close> (spelled exactly so), the upload fails with \<open>SchemaMismatch\<close> before any
  row is looked at: the state, and with it the store, is the one before the request.
\<close>

theorem upload_missing_column:
  assumes "''Name'' \<notin> set (columns df) \<or> ''Age'' \<notin> set (columns df)"
  shows "upload_users_csv L ''text/csv'' (Some df) st = (Inl SchemaMismatch, st)"
  using assms by (auto simp: upload_users_csv_def)

theorem upload_missing_column_witness:
  "upload_users_csv demo_lib ''text/csv''
     (Some \<lparr>columns = [''name''], rows = [[CStr ''Kevin'']]\<rparr>) init_state
   = (Inl SchemaMismatch, init_state)"
  by (rule upload_missing_column) simp

subsection \<open>A row whose name is already stored\<close>





subsection \<open>The report of the upload\<close>

lemma upload_passes:
  "{''Name'', ''Age''} \<subseteq> set (columns df) \<Longrightarrow>
   upload_users_csv L ''text/csv'' (Some df) st =
     (Inr (snd (process_rows L (columns df) (rows df) (st, empty_report))),
      fst (process_rows L (columns df) (rows df) (st, empty_report)))"
  by (simp add: upload_users_csv_def Let_def)









lemma process_row_counts:
  "added_users (snd (process_row L cols r sr)) + skipped_users (snd (process_row L cols r sr))
     = added_users (snd sr) + skipped_users (snd sr) + 1"
  by (simp add: process_row_def Let_def split: option.splits prod.splits)

lemma process_row_names_length:
  "int (length (skipped_names (snd (process_row L cols r sr)))) - skipped_users (snd (process_row L cols r sr))
     = int (length (skipped_names (snd sr))) - skipped_users (snd sr)"
  by (simp add: process_row_def Let_def split: option.splits prod.splits)

lemma process_rows_counts:
  "added_users (snd (process_rows L cols rs sr)) + skipped_users (snd (process_rows L cols rs sr))
     = added_users (snd sr) + skipped_users (snd sr) + int (length rs)"
  by (induction rs arbitrary: sr) (simp_all add: process_row_counts)

lemma process_rows_names_length:
  "int (length (skipped_names (snd (process_rows L cols rs sr)))) - skipped_users (snd (process_rows L cols rs sr))
     = int (length (skipped_names (snd sr))) - skipped_users (snd sr)"
  by (induction rs arbitrary: sr) (simp_all add: process_row_names_length)

text \<open>
  C10. When the header check passes, every data row is counted once: the added count and
  the skipped count add up to the number of data rows, and the list of skipped names is
  as long as the skipped count.
\<close>

theorem upload_counts:
  assumes "{''Name'', ''Age''} \<subseteq> set (columns df)"
  shows "\<exists>rep st'. upload_users_csv L ''text/csv'' (Some df) st = (Inr rep, st')
           \<and> added_users rep + skipped_users rep = int (length (rows df))
           \<and> int (length (skipped_names rep)) = skipped_users rep"
proof -
  let ?sr = "process_rows L (columns df) (rows df) (st, empty_report)"
  have "added_users (snd ?sr) + skipped_users (snd ?sr) = int (length (rows df))"
    using process_rows_counts [of L "columns df" "rows df" "(st, empty_report)"]
    by (simp add: empty_report_def)
  moreover have "int (length (skipped_names (snd ?sr))) = skipped_users (snd ?sr)"
    using process_rows_names_length [of L "columns df" "rows df" "(st, empty_report)"]
    by (simp add: empty_report_def)
  ultimately show ?thesis
    using upload_passes [OF assms, of L st] by blast
qed

theorem upload_counts_witness:
  "\<exists>rep st'. upload_users_csv demo_lib ''text/csv'' (Some mixed_frame) heidi_state = (Inr rep, st')
      \<and> added_users rep + skipped_users rep = 3
      \<and> int (length (skipped_names rep)) = skipped_users rep"
proof -
  have hdr: "{''Name'', ''Age''} \<subseteq> set (columns mixed_frame)"
    by (simp add: mixed_frame_def)
  have len: "int (length (rows mixed_frame)) = 3"
    by (simp add: mixed_frame_def)
  from upload_counts [OF hdr, of demo_lib heidi_state] len show ?thesis
    by simp
qed

subsection \<open>Float64 rounding\<close>

lemma pow2_pos: "0 < pow2 e"
  by (simp add: pow2_def)

lemma div_pow2_mono: "a \<le> b \<Longrightarrow> a / pow2 e \<le> b / pow2 e"
  by (rule divide_right_mono) (simp_all add: less_imp_le [OF pow2_pos])

lemma pow2_add: "pow2 (m + n) = pow2 m * pow2 n"
  by (simp add: pow2_def power_int_add)

lemma pow2_diff: "pow2 (m - n) = pow2 m / pow2 n"
  by (simp add: pow2_def power_int_diff)

lemma pow2_nat: "0 \<le> e \<Longrightarrow> pow2 e = 2 ^ nat e"
  by (simp add: pow2_def power_int_def)

lemma pow2_mono: "m \<le> n \<Longrightarrow> pow2 m \<le> pow2 n"
  by (simp add: pow2_def power_int_increasing)

lemma pow2_strict_mono: "m < n \<Longrightarrow> pow2 m < pow2 n"
  by (simp add: pow2_def power_int_strict_increasing)

lemma pow2_less_cancel: "pow2 m < pow2 n \<Longrightarrow> m < n"
  using pow2_mono [of n m] by (cases "m < n") auto

lemma bitlen_lower: "0 < a \<Longrightarrow> pow2 (bitlen a - 1) \<le> of_int a"
proof -
  assume a: "0 < a"
  then have "1 \<le> bitlen a"
    by (simp add: bitlen_alt_def)
  then have "pow2 (bitlen a - 1) = of_int (2 ^ nat (bitlen a - 1))"
    by (simp add: pow2_nat)
  also have "\<dots> \<le> of_int a"
    using bitlen_bounds [OF a] by (simp only: of_int_le_iff)
  finally show ?thesis .
qed

lemma bitlen_upper: "0 < a \<Longrightarrow> of_int a < pow2 (bitlen a)"
proof -
  assume a: "0 < a"
  have "of_int a < (of_int (2 ^ nat (bitlen a)) :: rat)"
    using bitlen_bounds [OF a] by (simp only: of_int_less_iff)
  also have "\<dots> = pow2 (bitlen a)"
    by (simp add: pow2_nat bitlen_nonneg)
  finally show ?thesis .
qed

lemma expo_bounds:
  assumes "0 < q"
  shows "pow2 (expo q) \<le> q \<and> q < pow2 (expo q + 1)"
proof -
  obtain a b where ab: "quotient_of q = (a, b)"
    by (cases "quotient_of q")
  then have b: "0 < b" and q: "q = of_int a / of_int b"
    using quotient_of_denom_pos [OF ab] quotient_of_div [OF ab] by simp_all
  with assms have a: "0 < a"
    by (simp add: zero_less_divide_iff)
  let ?d = "bitlen a - bitlen b"
  have lo: "pow2 (?d - 1) \<le> q"
  proof -
    have "pow2 (?d - 1) = pow2 (bitlen a - 1) / pow2 (bitlen b)"
      by (simp add: pow2_diff [symmetric] algebra_simps)
    also have "\<dots> \<le> of_int a / pow2 (bitlen b)"
      using bitlen_lower [OF a] by (rule div_pow2_mono)
    also have "\<dots> \<le> of_int a / of_int b"
      using bitlen_upper [OF b] a b by (simp add: frac_le)
    finally show ?thesis by (simp add: q)
  qed
  have hi: "q < pow2 (?d + 1)"
  proof -
    have "q = of_int a / of_int b" by (rule q)
    also have "\<dots> < pow2 (bitlen a) / of_int b"
      using bitlen_upper [OF a] b by (simp add: divide_strict_right_mono)
    also have "\<dots> \<le> pow2 (bitlen a) / pow2 (bitlen b - 1)"
      using bitlen_lower [OF b] pow2_pos [of "bitlen a"] pow2_pos [of "bitlen b - 1"]
      by (simp add: frac_le)
    also have "\<dots> = pow2 (?d + 1)"
      by (simp add: pow2_diff [symmetric] algebra_simps)
    finally show ?thesis .
  qed
  show ?thesis
    using lo hi by (simp add: expo_def ab Let_def not_le)
qed

lemma expo_unique:
  assumes "0 < q" and "pow2 e \<le> q" and "q < pow2 (e + 1)"
  shows "expo q = e"
proof -
  from expo_bounds [OF assms(1)] have lo: "pow2 (expo q) \<le> q" and hi: "q < pow2 (expo q + 1)"
    by simp_all
  from lo assms(3) have "pow2 (expo q) < pow2 (e + 1)" by simp
  then have "expo q < e + 1" by (rule pow2_less_cancel)
  moreover from assms(2) hi have "pow2 e < pow2 (expo q + 1)" by simp
  then have "e < expo q + 1" by (rule pow2_less_cancel)
  ultimately show ?thesis by simp
qed

lemma rint_of_int: "rint (of_int k) = k"
  by (simp add: rint_def)

lemma rint_mono_int: "of_int k \<le> q \<Longrightarrow> k \<le> rint q"
proof -
  assume "of_int k \<le> q"
  then have "k \<le> \<lfloor>q\<rfloor>" by (simp add: le_floor_iff)
  then show ?thesis by (auto simp: rint_def Let_def)
qed

text \<open>A positive value with a known binary exponent.\<close>

lemma f64_round_pos:
  assumes q: "0 < q" and lo: "pow2 e \<le> q" and hi: "q < pow2 (e + 1)" and e: "- 1022 \<le> e"
    and r: "r = of_int (rint (q / pow2 (e - 52))) * pow2 (e - 52)" and fin: "r < pow2 1024"
  shows "f64_round q = Finite r"
proof -
  have ex: "expo q = e" using q lo hi by (rule expo_unique)
  have "pow2 52 \<le> q / pow2 (e - 52)"
  proof -
    have "pow2 52 = pow2 e / pow2 (e - 52)"
      by (simp add: pow2_diff [symmetric])
    also have "\<dots> \<le> q / pow2 (e - 52)"
      using lo by (rule div_pow2_mono)
    finally show ?thesis .
  qed
  then have "of_int (2 ^ 52) \<le> q / pow2 (e - 52)"
    by (simp add: pow2_nat)
  then have "2 ^ 52 \<le> rint (q / pow2 (e - 52))"
    by (rule rint_mono_int)
  then have "0 < rint (q / pow2 (e - 52))" by simp
  then have "0 < r" using pow2_pos [of "e - 52"] by (simp add: r)
  have m: "max (expo q) (- 1022) = e"
    using ex e by simp
  have eq: "of_int (rint (\<bar>q\<bar> / pow2 (max (expo \<bar>q\<bar>) (- 1022) - 52)))
              * pow2 (max (expo \<bar>q\<bar>) (- 1022) - 52) = r"
    using q by (simp add: m r)
  show ?thesis
    unfolding f64_round_def Let_def eq using q fin \<open>0 < r\<close> by simp
qed

lemma f64_round_neg:
  assumes q: "0 < q" and lo: "pow2 e \<le> q" and hi: "q < pow2 (e + 1)" and e: "- 1022 \<le> e"
    and r: "r = of_int (rint (q / pow2 (e - 52))) * pow2 (e - 52)" and fin: "r < pow2 1024"
  shows "f64_round (- q) = Finite (- r)"
proof -
  have ex: "expo q = e" using q lo hi by (rule expo_unique)
  have "pow2 52 \<le> q / pow2 (e - 52)"
  proof -
    have "pow2 52 = pow2 e / pow2 (e - 52)"
      by (simp add: pow2_diff [symmetric])
    also have "\<dots> \<le> q / pow2 (e - 52)"
      using lo by (rule div_pow2_mono)
    finally show ?thesis .
  qed
  then have "of_int (2 ^ 52) \<le> q / pow2 (e - 52)"
    by (simp add: pow2_nat)
  then have "2 ^ 52 \<le> rint (q / pow2 (e - 52))"
    by (rule rint_mono_int)
  then have "0 < rint (q / pow2 (e - 52))" by simp
  then have "0 < r" using pow2_pos [of "e - 52"] by (simp add: r)
  have m: "max (expo q) (- 1022) = e"
    using ex e by simp
  have eq: "of_int (rint (\<bar>- q\<bar> / pow2 (max (expo \<bar>- q\<bar>) (- 1022) - 52)))
              * pow2 (max (expo \<bar>- q\<bar>) (- 1022) - 52) = r"
    using q by (simp add: m r)
  show ?thesis
    unfolding f64_round_def Let_def eq using q fin \<open>0 < r\<close> by simp
qed

lemma f64_round_int_pos:
  assumes "0 < z" and "z < 2 ^ 53"
  shows "f64_round (of_int z) = Finite (of_int z)"
proof -
  let ?q = "of_int z :: rat"
  let ?e = "expo ?q"
  have q: "0 < ?q" using assms(1) by simp
  from expo_bounds [OF q] have lo: "pow2 ?e \<le> ?q" and hi: "?q < pow2 (?e + 1)"
    by simp_all
  have "?q < of_int (2 ^ 53)"
    using assms(2) by (simp only: of_int_less_iff)
  then have "?q < pow2 53"
    by (simp add: pow2_nat)
  with lo have "pow2 ?e < pow2 53" by simp
  then have e53: "?e < 53" by (rule pow2_less_cancel)
  have "(of_int 1 :: rat) \<le> ?q"
    using assms(1) by (simp only: of_int_le_iff)
  then have "pow2 0 \<le> ?q"
    by (simp add: pow2_nat)
  with hi have "pow2 0 < pow2 (?e + 1)" by simp
  then have e0: "0 \<le> ?e" using pow2_less_cancel [of 0 "?e + 1"] by simp
  have "?q / pow2 (?e - 52) = ?q * pow2 (52 - ?e)"
    by (simp add: pow2_diff)
  also have "\<dots> = of_int (z * 2 ^ nat (52 - ?e))"
    using e53 by (simp add: pow2_nat)
  finally have "rint (?q / pow2 (?e - 52)) = z * 2 ^ nat (52 - ?e)"
    by (simp only: rint_of_int)
  then have "of_int (rint (?q / pow2 (?e - 52))) * pow2 (?e - 52)
               = ?q * (pow2 (52 - ?e) * pow2 (?e - 52))"
    using e53 by (simp add: pow2_nat)
  also have "pow2 (52 - ?e) * pow2 (?e - 52) = 1"
    using pow2_add [of "52 - ?e" "?e - 52"] by (simp add: pow2_def)
  finally have r: "?q = of_int (rint (?q / pow2 (?e - 52))) * pow2 (?e - 52)"
    by simp
  have fin: "?q < pow2 1024"
    using \<open>?q < pow2 53\<close> pow2_strict_mono [of 53 1024] by simp
  show ?thesis
    using q lo hi _ r fin by (rule f64_round_pos) (use e0 in simp)
qed

lemma f64_round_int_neg:
  assumes "0 < z" and "z < 2 ^ 53"
  shows "f64_round (- of_int z) = Finite (- of_int z)"
proof -
  let ?q = "of_int z :: rat"
  let ?e = "expo ?q"
  have q: "0 < ?q" using assms(1) by simp
  from expo_bounds [OF q] have lo: "pow2 ?e \<le> ?q" and hi: "?q < pow2 (?e + 1)"
    by simp_all
  have "?q < of_int (2 ^ 53)"
    using assms(2) by (simp only: of_int_less_iff)
  then have "?q < pow2 53"
    by (simp add: pow2_nat)
  with lo have "pow2 ?e < pow2 53" by simp
  then have e53: "?e < 53" by (rule pow2_less_cancel)
  have "(of_int 1 :: rat) \<le> ?q"
    using assms(1) by (simp only: of_int_le_iff)
  then have "pow2 0 \<le> ?q"
    by (simp add: pow2_nat)
  with hi have "pow2 0 < pow2 (?e + 1)" by simp
  then have e0: "0 \<le> ?e" using pow2_less_cancel [of 0 "?e + 1"] by simp
  have "?q / pow2 (?e - 52) = ?q * pow2 (52 - ?e)"
    by (simp add: pow2_diff)
  also have "\<dots> = of_int (z * 2 ^ nat (52 - ?e))"
    using e53 by (simp add: pow2_nat)
  finally have "rint (?q / pow2 (?e - 52)) = z * 2 ^ nat (52 - ?e)"
    by (simp only: rint_of_int)
  then have "of_int (rint (?q / pow2 (?e - 52))) * pow2 (?e - 52)
               = ?q * (pow2 (52 - ?e) * pow2 (?e - 52))"
    using e53 by (simp add: pow2_nat)
  also have "pow2 (52 - ?e) * pow2 (?e - 52) = 1"
    using pow2_add [of "52 - ?e" "?e - 52"] by (simp add: pow2_def)
  finally have r: "?q = of_int (rint (?q / pow2 (?e - 52))) * pow2 (?e - 52)"
    by simp
  have fin: "?q < pow2 1024"
    using \<open>?q < pow2 53\<close> pow2_strict_mono [of 53 1024] by simp
  show ?thesis
    using q lo hi _ r fin by (rule f64_round_neg) (use e0 in simp)
qed

lemma f64_round_int:
  assumes "\<bar>z\<bar> < 2 ^ 53"
  shows "f64_round (of_int z) = Finite (of_int z)"
proof -
  consider "z = 0" | "0 < z" | "z < 0" by linarith
  then show ?thesis
  proof cases
    case 1
    then show ?thesis by (simp add: f64_round_def)
  next
    case 2
    with assms show ?thesis by (simp add: f64_round_int_pos)
  next
    case 3
    with assms have "f64_round (- of_int (- z)) = Finite (- of_int (- z))"
      by (intro f64_round_int_neg) simp_all
    then show ?thesis by simp
  qed
qed


lemma f64_round_not_nan: "f64_round q \<noteq> NaN"
  by (simp add: f64_round_def Let_def)

lemma f64_add_int:
  assumes "\<bar>a + b\<bar> < 2 ^ 53"
  shows "f64_add (Finite (of_int a)) (Finite (of_int b)) = Finite (of_int (a + b))"
proof (cases "a + b = 0")
  case True
  then have "(of_int a :: rat) + of_int b = 0"
    by (simp flip: of_int_add)
  with True show ?thesis
    by (simp add: f64_add_def)
next
  case False
  then have "(of_int a :: rat) + of_int b \<noteq> 0"
    by (simp flip: of_int_add)
  then show ?thesis
    using f64_round_int [OF assms] by (simp add: f64_add_def)
qed

lemma f64_sub_int:
  assumes "\<bar>a - b\<bar> < 2 ^ 53"
  shows "f64_sub (Finite (of_int a)) (Finite (of_int b)) = Finite (of_int (a - b))"
proof (cases "b = 0")
  case True
  with assms have a: "\<bar>a\<bar> < 2 ^ 53" by simp
  show ?thesis
    using True f64_round_int [OF a] by (simp add: f64_sub_def f64_add_def Let_def)
next
  case False
  have "\<bar>a + (- b)\<bar> < 2 ^ 53" using assms by simp
  from f64_add_int [OF this] False show ?thesis
    by (simp add: f64_sub_def)
qed

lemma kahan_sum_ints:
  assumes "\<bar>s\<bar> + sum_list (map abs xs) < 2 ^ 53"
  shows "kahan_sum (map (\<lambda>i. Finite (of_int i)) xs) (Finite (of_int s)) (Finite 0)
           = Finite (of_int (s + sum_list xs))"
  using assms
proof (induction xs arbitrary: s)
  case Nil
  show ?case by simp
next
  case (Cons x xs)
  have nn: "0 \<le> sum_list (map abs xs)"
    by (rule sum_list_nonneg) auto
  from Cons.prems have bound: "\<bar>s\<bar> + \<bar>x\<bar> + sum_list (map abs xs) < 2 ^ 53"
    by simp
  from bound nn have x: "\<bar>x - 0\<bar> < 2 ^ 53" and sx: "\<bar>s + x\<bar> < 2 ^ 53"
    and d: "\<bar>(s + x) - s\<bar> < 2 ^ 53" and z: "\<bar>x - x\<bar> < 2 ^ 53"
    and rest: "\<bar>s + x\<bar> + sum_list (map abs xs) < 2 ^ 53"
    by linarith+
  have y: "f64_sub (Finite (of_int x)) (Finite 0) = Finite (of_int x)"
    using f64_sub_int [OF x] by simp
  have t: "f64_add (Finite (of_int s)) (Finite (of_int x)) = Finite (of_int (s + x))"
    using sx by (rule f64_add_int)
  have "f64_sub (Finite (of_int (s + x))) (Finite (of_int s)) = Finite (of_int x)"
    using f64_sub_int [OF d] by simp
  moreover have "f64_sub (Finite (of_int x)) (Finite (of_int x)) = Finite 0"
    using f64_sub_int [OF z] by simp
  ultimately have c: "f64_sub (f64_sub (Finite (of_int (s + x))) (Finite (of_int s)))
                        (Finite (of_int x)) = Finite 0"
    by simp
  have "kahan_sum (map (\<lambda>i. Finite (of_int i)) (x # xs)) (Finite (of_int s)) (Finite 0)
          = kahan_sum (map (\<lambda>i. Finite (of_int i)) xs) (Finite (of_int (s + x))) (Finite 0)"
    by (simp only: list.map kahan_sum.simps Let_def y t c pyfloat.distinct if_False)
  also have "\<dots> = Finite (of_int ((s + x) + sum_list xs))"
    by (rule Cons.IH [OF rest])
  also have "(s + x) + sum_list xs = s + sum_list (x # xs)"
    by simp
  finally show ?case .
qed

lemma group_mean_ints:
  assumes "sum_list (map abs xs) < 2 ^ 53"
  shows "group_mean (map (\<lambda>i. Finite (of_int i)) xs)
           = f64_div (Finite (of_int (sum_list xs))) (Finite (of_nat (length xs)))"
  using kahan_sum_ints [of 0 xs] assms by (simp add: group_mean_def)

subsection \<open>The structure of the aggregation\<close>

lemma to_numeric_float_age:
  "\<not> overflows L u \<Longrightarrow> to_numeric L (age u) = Inr (float_age L u)"
  by (cases "age u") (auto simp: overflows_def float_age_def)


lemma to_numeric_col_users:
  "to_numeric_col L (map age us) =
     (if list_ex (overflows L) us then Inl Unhandled else Inr (map (float_age L) us))"
proof (induction us)
  case Nil
  show ?case by simp
next
  case (Cons u us)
  show ?case
  proof (cases "overflows L u")
    case True
    then show ?thesis by (simp add: overflows_def)
  next
    case False
    then show ?thesis
      by (simp add: to_numeric_float_age Cons.IH)
  qed
qed

lemma frame_of_users:
  "frame_of L us =
     (if list_ex (overflows L) us then Inl Unhandled
      else Inr (map (\<lambda>u. (group_of L (name u), float_age L u)) us))"
  by (simp add: frame_of_def to_numeric_col_users zip_map_map zip_same_conv_map)

lemma float_age_nan: "float_age L u = NaN \<longleftrightarrow> \<not> numeric_age L u"
  by (cases "age u") (auto simp: float_age_def numeric_age_def f64_round_not_nan)

lemma dropna_frame:
  "dropna_age (map (\<lambda>u. (group_of L (name u), float_age L u)) us)
     = map (\<lambda>u. (group_of L (name u), float_age L u)) (filter (numeric_age L) us)"
  by (induction us) (auto simp: dropna_age_def float_age_nan)

lemma group_ages_frame:
  "group_ages (map (\<lambda>u. (group_of L (name u), float_age L u)) (filter (numeric_age L) us)) k
     = included_ages L us k"
  by (induction us) (auto simp: group_ages_def included_ages_def)

lemma group_keys_frame:
  "group_keys (map (\<lambda>u. (group_of L (name u), float_age L u)) (filter (numeric_age L) us))
     = store_keys L us"
proof -
  have "List.map_filter fst (map (\<lambda>u. (group_of L (name u), float_age L u)) vs)
          = List.map_filter (\<lambda>u. group_of L (name u)) vs" for vs
    by (induction vs) (simp_all add: map_filter_simps split: option.splits)
  then show ?thesis
    by (simp add: group_keys_def store_keys_def)
qed

lemma aggregate_users:
  "aggregate L us =
     (if list_ex (overflows L) us then Inl Unhandled
      else Inr (Averages (map (\<lambda>k. (k, np_round2 (group_mean (included_ages L us k))))
                            (store_keys L us))))"
  by (simp add: aggregate_def frame_of_users average_ages_def Let_def dropna_frame
      group_ages_frame group_keys_frame)

lemma set_store_keys:
  "set (store_keys L us) = {k. \<exists>u \<in> set us. numeric_age L u \<and> group_of L (name u) = Some k}"
  by (force simp: store_keys_def map_filter_def)





lemma included_ages_nonempty:
  "k \<in> set (store_keys L us) \<Longrightarrow> included_ages L us k \<noteq> []"
  by (auto simp: set_store_keys included_ages_def filter_empty_conv)

subsection \<open>Integer ages with exact sums\<close>

lemma elem_le_sum_list:
  fixes xs :: "int list"
  assumes "\<forall>x \<in> set xs. 0 \<le> x" and "x \<in> set xs"
  shows "x \<le> sum_list xs"
  using assms
proof (induction xs)
  case Nil
  then show ?case by simp
next
  case (Cons y ys)
  have "0 \<le> sum_list ys"
    using Cons.prems(1) by (intro sum_list_nonneg) simp
  with Cons show ?case by auto
qed

lemma sum_list_filter_le:
  fixes f :: "'a \<Rightarrow> int"
  assumes "\<forall>x \<in> set xs. 0 \<le> f x"
  shows "sum_list (map f (filter P xs)) \<le> sum_list (map f xs)"
  using assms by (induction xs) (auto intro: add_increasing)

lemma small_int_ages_each:
  assumes "small_int_ages (map name_age us)" and "u \<in> set us"
  shows "\<exists>i. age u = AgeInt i \<and> \<bar>i\<bar> < 2 ^ 53"
proof -
  from assms have "is_int_age (name_age u)"
    by (auto simp: small_int_ages_def list_all_iff)
  then obtain i where i: "age u = AgeInt i"
    by (cases "age u") (auto simp: is_int_age_def name_age_def)
  have "\<bar>int_age (name_age u)\<bar> \<in> set (map (\<lambda>p. \<bar>int_age p\<bar>) (map name_age us))"
    using assms(2) by force
  then have "\<bar>int_age (name_age u)\<bar> \<le> sum_list (map (\<lambda>p. \<bar>int_age p\<bar>) (map name_age us))"
    by (intro elem_le_sum_list) auto
  with assms(1) have "\<bar>int_age (name_age u)\<bar> < 2 ^ 53"
    by (simp add: small_int_ages_def)
  with i show ?thesis
    by (simp add: int_age_def name_age_def)
qed

lemma small_int_user:
  assumes "age u = AgeInt i" and "\<bar>i\<bar> < 2 ^ 53"
  shows "\<not> overflows L u" and "numeric_age L u" and "float_age L u = Finite (of_int i)"
  using assms f64_round_int [OF assms(2)]
  by (simp_all add: overflows_def numeric_age_def float_age_def int_overflows_def)

lemma included_ages_ints:
  assumes "\<forall>u \<in> set us. \<exists>i. age u = AgeInt i \<and> \<bar>i\<bar> < 2 ^ 53"
  shows "included_ages L us k
           = map (\<lambda>i. Finite (of_int i)) (included_ints L (map name_age us) k)"
  using assms
proof (induction us)
  case Nil
  show ?case by (simp add: included_ages_def included_ints_def)
next
  case (Cons u us)
  from Cons.prems obtain i where i: "age u = AgeInt i" "\<bar>i\<bar> < 2 ^ 53"
    by auto
  from Cons.prems have "\<forall>u \<in> set us. \<exists>i. age u = AgeInt i \<and> \<bar>i\<bar> < 2 ^ 53"
    by simp
  from Cons.IH [OF this] small_int_user [OF i, of L] i(1) show ?case
    by (simp add: included_ages_def included_ints_def name_age_def int_age_def)
qed

lemma store_keys_ints:
  assumes "\<forall>u \<in> set us. numeric_age L u"
  shows "store_keys L us
           = sort (remdups (List.map_filter (\<lambda>p. group_of L (fst p)) (map name_age us)))"
proof -
  from assms have "filter (numeric_age L) us = us"
    by simp
  moreover have "List.map_filter (\<lambda>p. group_of L (fst p)) (map name_age vs)
                   = List.map_filter (\<lambda>u. group_of L (name u)) vs" for vs
    by (induction vs) (simp_all add: map_filter_simps name_age_def split: option.splits)
  ultimately show ?thesis
    by (simp add: store_keys_def)
qed

lemma included_ints_bound:
  "sum_list (map abs (included_ints L ps k)) \<le> sum_list (map (\<lambda>p. \<bar>int_age p\<bar>) ps)"
proof -
  have "sum_list (map abs (included_ints L ps k))
          = sum_list (map (\<lambda>p. \<bar>int_age p\<bar>) (filter (\<lambda>p. group_of L (fst p) = Some k) ps))"
    by (simp add: included_ints_def comp_def)
  also have "\<dots> \<le> sum_list (map (\<lambda>p. \<bar>int_age p\<bar>) ps)"
    by (rule sum_list_filter_le) simp
  finally show ?thesis .
qed

lemma aggregate_small_ints:
  assumes "small_int_ages (map name_age us)"
  shows "aggregate L us = Inr (Averages (int_averages L (map name_age us)))"
proof -
  have each: "\<forall>u \<in> set us. \<exists>i. age u = AgeInt i \<and> \<bar>i\<bar> < 2 ^ 53"
    using small_int_ages_each [OF assms] by blast
  then have noov: "\<not> list_ex (overflows L) us" and num: "\<forall>u \<in> set us. numeric_age L u"
    using small_int_user [of _ _ L] by (auto simp: list_ex_iff)
  have "group_mean (included_ages L us k)
          = f64_div (Finite (of_int (sum_list (included_ints L (map name_age us) k))))
                    (Finite (of_nat (length (included_ints L (map name_age us) k))))" for k
  proof -
    have "sum_list (map abs (included_ints L (map name_age us) k)) < 2 ^ 53"
      using included_ints_bound [of L "map name_age us" k] assms
      by (simp add: small_int_ages_def)
    then show ?thesis
      by (simp add: included_ages_ints [OF each] group_mean_ints)
  qed
  then show ?thesis
    by (simp add: aggregate_users noov store_keys_ints [OF num] int_averages_def)
qed

lemma mset_map_filter:
  "mset xs = mset ys \<Longrightarrow> mset (List.map_filter f xs) = mset (List.map_filter f ys)"
  by (simp add: map_filter_def)

lemma included_ints_mset:
  assumes "mset ps = mset ps'"
  shows "sum_list (included_ints L ps k) = sum_list (included_ints L ps' k)"
    and "length (included_ints L ps k) = length (included_ints L ps' k)"
proof -
  have "mset (included_ints L ps k) = mset (included_ints L ps' k)"
    unfolding included_ints_def using assms by (metis mset_filter mset_map)
  then show "sum_list (included_ints L ps k) = sum_list (included_ints L ps' k)"
    and "length (included_ints L ps k) = length (included_ints L ps' k)"
    by (metis sum_mset_sum_list, metis mset_eq_length)
qed

lemma int_averages_mset:
  assumes "mset ps = mset ps'"
  shows "int_averages L ps = int_averages L ps'"
proof -
  have "set (List.map_filter (\<lambda>p. group_of L (fst p)) ps)
          = set (List.map_filter (\<lambda>p. group_of L (fst p)) ps')"
    using mset_map_filter [OF assms] by (metis mset_eq_setD)
  then have "sort (remdups (List.map_filter (\<lambda>p. group_of L (fst p)) ps))
          = sort (remdups (List.map_filter (\<lambda>p. group_of L (fst p)) ps'))"
    by (simp flip: sorted_list_of_set_sort_remdups)
  then show ?thesis
    by (simp add: int_averages_def included_ints_mset [OF assms])
qed

lemma small_int_ages_mset:
  assumes "mset ps = mset ps'"
  shows "small_int_ages ps = small_int_ages ps'"
proof -
  have "set ps = set ps'" using assms by (rule mset_eq_setD)
  moreover have "sum_list (map (\<lambda>p. \<bar>int_age p\<bar>) ps) = sum_list (map (\<lambda>p. \<bar>int_age p\<bar>) ps')"
    using assms by (metis mset_map sum_mset_sum_list)
  ultimately show ?thesis
    by (simp add: small_int_ages_def list_all_iff)
qed

subsection \<open>Evaluations\<close>

lemma f64_round_25: "f64_round 25 = Finite 25"
  using f64_round_int [of 25] by simp

lemma f64_round_2500: "f64_round 2500 = Finite 2500"
  using f64_round_int [of 2500] by simp

lemma f64_round_3250: "f64_round 3250 = Finite 3250"
  using f64_round_int [of 3250] by simp

lemma f64_round_32_5: "f64_round (65 / 2) = Finite (65 / 2)"
  by (rule f64_round_pos [where e = 5]; code_simp)

lemma rint_2500: "rint 2500 = 2500"
  using rint_of_int [of 2500] by simp

lemma rint_3250: "rint 3250 = 3250"
  using rint_of_int [of 3250] by simp

lemma np_round2_50_2: "np_round2 (f64_div (Finite 50) (Finite 2)) = Finite 25"
proof -
  have "f64_div (Finite 50) (Finite 2) = Finite 25"
    by (simp add: f64_div_def f64_round_25)
  moreover have "f64_mul (Finite 25) (Finite 100) = Finite 2500"
    by (simp add: f64_mul_def f64_round_2500)
  moreover have "f64_rint (Finite 2500) = Finite 2500"
    by (simp add: rint_2500)
  moreover have "f64_div (Finite 2500) (Finite 100) = Finite 25"
    by (simp add: f64_div_def f64_round_25)
  ultimately show ?thesis
    by (simp add: np_round2_def)
qed

lemma np_round2_65_2: "np_round2 (f64_div (Finite 65) (Finite 2)) = Finite (65 / 2)"
proof -
  have "f64_div (Finite 65) (Finite 2) = Finite (65 / 2)"
    by (simp add: f64_div_def f64_round_32_5)
  moreover have "f64_mul (Finite (65 / 2)) (Finite 100) = Finite 3250"
    by (simp add: f64_mul_def f64_round_3250)
  moreover have "f64_rint (Finite 3250) = Finite 3250"
    by (simp add: rint_3250)
  moreover have "f64_div (Finite 3250) (Finite 100) = Finite (65 / 2)"
    by (simp add: f64_div_def f64_round_32_5)
  ultimately show ?thesis
    by (simp add: np_round2_def)
qed

lemma f64_round_23_40: "f64_round (23 / 40) = Finite (2589569785738035 / 4503599627370496)"
  by (rule f64_round_pos [where e = "- 1"]; code_simp)

lemma f64_round_57_5_below:
  "f64_round (2589569785738035 / 4503599627370496 * 100)
     = Finite (8092405580431359 / 140737488355328)"
  by (rule f64_round_pos [where e = 5]; code_simp)

lemma rint_57_5_below: "rint (8092405580431359 / 140737488355328) = 57"
  by code_simp

lemma f64_round_57_100: "f64_round (57 / 100) = Finite (5134103575202365 / 9007199254740992)"
  by (rule f64_round_pos [where e = "- 1"]; code_simp)

lemma np_round2_23_40:
  "np_round2 (f64_div (Finite 23) (Finite 40)) = Finite (5134103575202365 / 9007199254740992)"
proof -
  have "f64_div (Finite 23) (Finite 40) = Finite (2589569785738035 / 4503599627370496)"
    by (simp add: f64_div_def f64_round_23_40)
  moreover have "f64_mul (Finite (2589569785738035 / 4503599627370496)) (Finite 100)
                   = Finite (8092405580431359 / 140737488355328)"
    using f64_round_57_5_below by (simp add: f64_mul_def)
  moreover have "f64_rint (Finite (8092405580431359 / 140737488355328)) = Finite 57"
    by (simp add: rint_57_5_below)
  moreover have "f64_div (Finite 57) (Finite 100) = Finite (5134103575202365 / 9007199254740992)"
    by (simp add: f64_div_def f64_round_57_100)
  ultimately show ?thesis
    by (simp add: np_round2_def)
qed

lemma example_keys:
  "sort (remdups (List.map_filter (\<lambda>p. group_of L (fst p)) (map name_age example_users)))
     = [''L'', ''M'']"
  unfolding example_users_def by code_simp

lemma example_ints:
  "included_ints L (map name_age example_users) ''L'' = [22, 28]"
  "included_ints L (map name_age example_users) ''M'' = [35, 30]"
  unfolding example_users_def by code_simp+

lemma example_int_averages:
  "int_averages L (map name_age example_users) = [(''L'', Finite 25), (''M'', Finite (65 / 2))]"
  by (simp add: int_averages_def example_keys example_ints np_round2_50_2 np_round2_65_2)

lemma example_small: "small_int_ages (map name_age example_users)"
  unfolding example_users_def by code_simp

lemma ones_zeros_keys:
  "sort (remdups (List.map_filter (\<lambda>p. group_of L (fst p)) (map name_age ones_zeros_users)))
     = [''A'']"
  unfolding ones_zeros_users_def by code_simp

lemma ones_zeros_ints:
  "sum_list (included_ints L (map name_age ones_zeros_users) ''A'') = 23"
  "length (included_ints L (map name_age ones_zeros_users) ''A'') = 40"
  unfolding ones_zeros_users_def by code_simp+

lemma ones_zeros_small: "small_int_ages (map name_age ones_zeros_users)"
  unfolding ones_zeros_users_def by code_simp

lemma ones_zeros_averages:
  "int_averages L (map name_age ones_zeros_users)
     = [(''A'', Finite (5134103575202365 / 9007199254740992))]"
  by (simp add: int_averages_def ones_zeros_keys ones_zeros_ints np_round2_23_40)



lemma included_ints_nonempty:
  assumes "k \<in> set (List.map_filter (\<lambda>p. group_of L (fst p)) ps)"
  shows "included_ints L ps k \<noteq> []"
  using assms by (fastforce simp: map_filter_def included_ints_def filter_empty_conv)

lemma int_averages_entry:
  assumes "(k, v) \<in> set (int_averages L ps)"
  shows "included_ints L ps k \<noteq> []
       \<and> v = np_round2 (f64_div (Finite (of_int (sum_list (included_ints L ps k))))
                                (Finite (of_nat (length (included_ints L ps k)))))"
proof -
  from assms have "k \<in> set (List.map_filter (\<lambda>p. group_of L (fst p)) ps)"
    and "v = np_round2 (f64_div (Finite (of_int (sum_list (included_ints L ps k))))
                                (Finite (of_nat (length (included_ints L ps k)))))"
    by (auto simp: int_averages_def)
  then show ?thesis
    by (simp add: included_ints_nonempty)
qed

lemma average_example:
  assumes "mset (map name_age us) = mset (map name_age example_users)"
  shows "aggregate L us = Inr (Averages [(''L'', Finite 25), (''M'', Finite (65 / 2))])"
proof -
  have "small_int_ages (map name_age us)"
    using small_int_ages_mset [OF assms] example_small by simp
  then have "aggregate L us = Inr (Averages (int_averages L (map name_age us)))"
    by (rule aggregate_small_ints)
  then show ?thesis
    by (simp add: int_averages_mset [OF assms] example_int_averages)
qed

subsection \<open>The empty store\<close>

text \<open>
  C8. On an empty store the average-age handler returns the "no users" indicator, which
  is not the empty mapping; on a non-empty store it never returns that indicator, so the
  two cases can be told apart.
\<close>

theorem average_no_users:
  "(users_db st = [] \<longrightarrow> get_average_age_by_group L st = Inr NoUsers
        \<and> get_average_age_by_group L st \<noteq> Inr (Averages []))
   \<and> (users_db st \<noteq> [] \<longrightarrow> get_average_age_by_group L st \<noteq> Inr NoUsers)"
  by (simp add: get_average_age_by_group_def aggregate_users)

theorem average_no_users_witness:
  "get_average_age_by_group demo_lib init_state = Inr NoUsers
   \<and> get_average_age_by_group demo_lib init_state \<noteq> Inr (Averages [])
   \<and> get_average_age_by_group demo_lib heidi_state \<noteq> Inr NoUsers"
  using average_no_users [of init_state demo_lib] average_no_users [of heidi_state demo_lib]
  by (simp add: init_state_def heidi_state_def)

subsection \<open>Records without a numeric age\<close>




subsection \<open>The reported averages\<close>

text \<open>
  C7 (as amended). On a non-empty store every value the handler reports is computed in
  float64: the mean of the group's numeric ages as pandas computes it (compensated sum,
  divided by the count), then numpy's rounding to two decimals (times 100, to the nearest
  whole number with ties to even, divided by 100), every step rounded to a double. When
  all ages are integers whose absolute values add up to less than \<open>2^53\<close>, the handler
  returns a mapping and the mean is the exact sum divided by the count, rounded once. The
  value can differ from the exact mean rounded to two decimals. A store holding exactly
  the records Liam 22, Linda 28, Mason 35 and Mia 30, under any identifiers and in any
  order, gives L 25.0 and M 32.5.
\<close>

theorem average_is_rounded_mean:
  assumes "users_db st \<noteq> []"
  shows "(\<forall>m k v. get_average_age_by_group L st = Inr (Averages m) \<longrightarrow> (k, v) \<in> set m \<longrightarrow>
            included_ages L (get_users st) k \<noteq> []
            \<and> v = np_round2 (group_mean (included_ages L (get_users st) k)))
       \<and> (small_int_ages (map name_age (get_users st)) \<longrightarrow>
            (\<exists>m. get_average_age_by_group L st = Inr (Averages m)
               \<and> (\<forall>k v. (k, v) \<in> set m \<longrightarrow>
                     included_ints L (map name_age (get_users st)) k \<noteq> []
                     \<and> v = np_round2
                           (f64_div
                              (Finite (of_int (sum_list
                                 (included_ints L (map name_age (get_users st)) k))))
                              (Finite (of_nat (length
                                 (included_ints L (map name_age (get_users st)) k))))))))
       \<and> (mset (map name_age (get_users st)) = mset (map name_age example_users) \<longrightarrow>
            get_average_age_by_group L st
              = Inr (Averages [(''L'', Finite 25), (''M'', Finite (65 / 2))]))"
proof -
  let ?us = "get_users st"
  have res: "get_average_age_by_group L st = aggregate L ?us"
    using assms by (simp add: get_average_age_by_group_def get_users_def)
  have one: "included_ages L ?us k \<noteq> []
            \<and> v = np_round2 (group_mean (included_ages L ?us k))"
    if "get_average_age_by_group L st = Inr (Averages m)" and "(k, v) \<in> set m" for m k v
  proof -
    from that(1) have "m = map (\<lambda>k. (k, np_round2 (group_mean (included_ages L ?us k))))
                              (store_keys L ?us)"
      unfolding res aggregate_users by (simp split: if_splits)
    with that(2) have "k \<in> set (store_keys L ?us)"
      and "v = np_round2 (group_mean (included_ages L ?us k))"
      by auto
    then show ?thesis
      by (simp add: included_ages_nonempty)
  qed
  have two: "\<exists>m. get_average_age_by_group L st = Inr (Averages m)
               \<and> (\<forall>k v. (k, v) \<in> set m \<longrightarrow>
                     included_ints L (map name_age ?us) k \<noteq> []
                     \<and> v = np_round2
                           (f64_div
                              (Finite (of_int (sum_list (included_ints L (map name_age ?us) k))))
                              (Finite (of_nat (length (included_ints L (map name_age ?us) k))))))"
    if "small_int_ages (map name_age ?us)"
    using aggregate_small_ints [OF that, of L] int_averages_entry [of _ _ L "map name_age ?us"]
    by (simp add: res)
  have three: "get_average_age_by_group L st
              = Inr (Averages [(''L'', Finite 25), (''M'', Finite (65 / 2))])"
    if "mset (map name_age ?us) = mset (map name_age example_users)"
    using average_example [OF that, of L] by (simp add: res)
  from one two three show ?thesis by blast
qed

theorem average_is_rounded_mean_witness:
  "get_average_age_by_group demo_lib example_state
     = Inr (Averages [(''L'', Finite 25), (''M'', Finite (65 / 2))])"
proof -
  have ne: "users_db example_state \<noteq> []"
    by (simp add: example_state_def)
  have ms: "mset (map name_age (get_users example_state)) = mset (map name_age example_users)"
    by (simp add: example_state_def example_users_def get_users_def dict_values_def name_age_def)
  from average_is_rounded_mean [OF ne, of demo_lib] ms show ?thesis
    by blast
qed

text \<open>
  The reported value is not always the mean rounded to two decimals: with twenty-three
  ages 1 and seventeen ages 0 in one group the mean is \<open>23/40 = 0.575\<close>, which rounds
  to \<open>0.58\<close> with ties up as well as with ties to even, and the handler reports the
  double nearest to \<open>0.57\<close>.
\<close>

theorem average_ones_zeros:
  "get_average_age_by_group demo_lib ones_zeros_state
     = Inr (Averages [(''A'', Finite (5134103575202365 / 9007199254740992))])
   \<and> sum_list (included_ints demo_lib (map name_age (get_users ones_zeros_state)) ''A'') = 23
   \<and> length (included_ints demo_lib (map name_age (get_users ones_zeros_state)) ''A'') = 40
   \<and> spec_round2_half_up (23 / 40) = 29 / 50
   \<and> spec_round2_half_even (23 / 40) = 29 / 50
   \<and> f64_round (29 / 50) = Finite (5224175567749775 / 9007199254740992)"
proof -
  have us: "get_users ones_zeros_state = ones_zeros_users"
    by (simp add: ones_zeros_state_def get_users_def dict_values_def comp_def)
  have ne: "users_db ones_zeros_state \<noteq> []"
    by (simp add: ones_zeros_state_def ones_zeros_users_def)
  have "get_average_age_by_group demo_lib ones_zeros_state = aggregate demo_lib ones_zeros_users"
    using ne us by (simp add: get_average_age_by_group_def get_users_def)
  then have "get_average_age_by_group demo_lib ones_zeros_state
     = Inr (Averages [(''A'', Finite (5134103575202365 / 9007199254740992))])"
    by (simp add: aggregate_small_ints [OF ones_zeros_small] ones_zeros_averages)
  moreover have "spec_round2_half_up (23 / 40) = 29 / 50"
    by code_simp
  moreover have "spec_round2_half_even (23 / 40) = 29 / 50"
    by code_simp
  moreover have "f64_round (29 / 50) = Finite (5224175567749775 / 9007199254740992)"
    by (rule f64_round_pos [where e = "- 1"]; code_simp)
  ultimately show ?thesis
    by (simp add: us ones_zeros_ints)
qed

subsection \<open>The empty name\<close>

lemma dict_set_mem: "(k, v) \<in> set (dict_set k v d)"
  by (induction d) auto

text \<open>
  C9 (as amended). The create operation puts no constraint on the name being non-empty:
  when no stored record has the empty name, a create request with the empty name succeeds
  and the record with the empty name is in the store afterwards.
\<close>

theorem create_user_empty_name:
  assumes "\<not> name_taken [] (users_db st)"
  shows "\<exists>u. fst (create_user L [] a st) = Inr u \<and> name u = [] \<and> age u = AgeInt a
           \<and> u \<in> set (get_users (snd (create_user L [] a st)))"
proof -
  let ?u = "\<lparr>user_id = uuid4 L (uuid_calls st), name = [], age = AgeInt a\<rparr>"
  have "fst (create_user L [] a st) = Inr ?u"
    using assms by (simp add: create_user_def Let_def)
  moreover have "?u \<in> set (get_users (snd (create_user L [] a st)))"
    using assms dict_set_mem [of "uuid4 L (uuid_calls st)" ?u "users_db st"]
    by (force simp: create_user_def Let_def get_users_def dict_values_def)
  ultimately show ?thesis by simp
qed

theorem create_user_empty_name_witness:
  "\<exists>u. fst (create_user demo_lib [] 5 init_state) = Inr u \<and> name u = [] \<and> age u = AgeInt 5
           \<and> u \<in> set (get_users (snd (create_user demo_lib [] 5 init_state)))"
  by (rule create_user_empty_name) (simp add: init_state_def name_taken_def dict_values_def)

text \<open>
  The constraint "name is non-empty" of the specification is not enforced: on the empty
  store the request with the empty name and age 5 stores a record.
\<close>

theorem create_user_empty_name_stored:
  "get_users (snd (create_user demo_lib [] 5 init_state))
     = [\<lparr>user_id = ''u0'', name = [], age = AgeInt 5\<rparr>]"
  by code_simp

end
